theory Spec2Isabelle
  imports Main
begin

section \<open>The workflow resolution engine of fsm-orchestrator\<close>

text \<open>
  A shallow embedding of \<^verbatim>\<open>src/orchestrator/Workflow.ts\<close>, the \<^verbatim>\<open>Action\<close> class,
  the abstract \<^verbatim>\<open>Orchestrator\<close> class and the types they use.

  Conventions of the embedding.
  \<^item> A TypeScript object type is a record. Field names are the source's; where two
    types share a field name the field carries a prefix: \<open>st_\<close> (IState), \<open>ev_\<close>
    (IEvent), \<open>cbi_\<close> (TCanBeInvoked), \<open>res_\<close> (IActionLogData), \<open>log_\<close> (IInvocationLog),
    \<open>act_\<close> (Action), \<open>wf_\<close> (Workflow), \<open>tk_\<close> (ITask).
  \<^item> An optional field or parameter (\<^verbatim>\<open>x?: T\<close>) is a \<open>T option\<close>; \<open>None\<close> is \<^verbatim>\<open>undefined\<close>.
  \<^item> A method that mutates its object takes the object and returns the new one. A
    method that may throw returns a sum, \<open>Inl\<close> the thrown value.
  \<^item> A callback supplied by the caller (a trigger condition, an action's guard, an
    action's body) is a HOL function of its arguments that returns a sum: \<open>Inl\<close> the
    value it throws, \<open>Inr\<close> the value it returns. Callbacks do not mutate their
    arguments: the source hands them the state object and never copies it, so a
    callback that wrote to it would be outside this model.
  \<^item> \<^verbatim>\<open>await\<close> is sequential composition: one call runs to completion before the
    next starts. Interleaved calls are outside this model.
  \<^item> A JavaScript \<^verbatim>\<open>Map\<close> is an association list in insertion order with one entry
    per key, an array is a list.
\<close>

subsection \<open>Values, state, events, results\<close>

datatype JsValue =
    JsString string
  | JsNumber int
  | JsBool bool
  | JsArray "JsValue list"
  | JsObject "(string \<times> JsValue) list"

text \<open>\<^verbatim>\<open>Record<string, any>\<close>\<close>

type_synonym Data = "(string \<times> JsValue) list"

record IState =
  st_key :: string
  st_data :: Data

record IEvent =
  ev_key :: string
  ev_payload :: "Data option"

record TCanBeInvoked =
  can :: bool
  cbi_description :: string

text \<open>
  \<^verbatim>\<open>Messenger<any>\<close> and \<^verbatim>\<open>IEmitEvent\<close> are opaque to the core: it passes the first to
  the action body and copies the second onto the result, and never looks inside.
\<close>

typedecl Messenger

typedecl IEmitEvent

text \<open>\<^verbatim>\<open>cost: number\<close> is never computed with; an integer stands for it.\<close>

record IActionLogData =
  action_key :: "string option"
  cost :: int
  res_success :: bool
  res_message :: "string option"
  res_data :: "Data option"
  new_state :: "IState option"
  res_emitEvent :: "IEmitEvent option"

record IInvocationLog =
  timestamp :: string
  task_id :: string
  log_success :: bool
  log_message :: "string option"
  event :: IEvent
  action_log_data :: "IActionLogData option"

subsection \<open>Thrown values\<close>

text \<open>
  The three \<^verbatim>\<open>throw new Error(...)\<close> of the source are the first three constructors,
  named as the specification names them and carrying the keys the message
  interpolates. \<open>Thrown m\<close> is any value thrown by a callback; \<open>m\<close> is its
  \<^verbatim>\<open>message\<close> property when it has one.
\<close>

datatype Exn =
    ActionKeyConflict string string
  | TriggerConflict string string string
  | WorkflowNotFound string
  | Thrown "string option"

definition quoted :: "string \<Rightarrow> string" where
  "quoted s = [CHR 0x27] @ s @ [CHR 0x27]"

text \<open>\<^verbatim>\<open>err?.message\<close>\<close>

fun exn_message :: "Exn \<Rightarrow> string option" where
  "exn_message (ActionKeyConflict actionKey workflowKey) =
     Some (''Action '' @ quoted actionKey @ '' is already registered in workflow '' @ quoted workflowKey)"
| "exn_message (TriggerConflict actionKey eventKey workflowKey) =
     Some (''Trigger for action '' @ quoted actionKey @ '' already exists for event '' @ quoted eventKey
           @ '' in workflow '' @ quoted workflowKey)"
| "exn_message (WorkflowNotFound workflowKey) =
     Some (''Workflow '' @ quoted workflowKey @ '' not found'')"
| "exn_message (Thrown m) = m"

subsection \<open>Action\<close>

record Action =
  act_key :: string
  act_description :: string
  act_emitEvent :: "IEmitEvent option"
  act_canBeInvoked :: "IState \<Rightarrow> Exn + TCanBeInvoked"
  act_perform :: "IState \<Rightarrow> Messenger option \<Rightarrow> Exn + IActionLogData"

definition canBeInvoked :: "Action \<Rightarrow> IState \<Rightarrow> Exn + TCanBeInvoked" where
  "canBeInvoked a s = act_canBeInvoked a s"

text \<open>
  \<^verbatim>\<open>const result = await this._perform(state, messenger);
  result.emitEvent = this.emitEvent; return result;\<close>
  The repository holds a second copy of the class whose \<^verbatim>\<open>invoke\<close> returns
  \<^verbatim>\<open>this._perform(state, messenger)\<close> as it is; the two differ in the \<^verbatim>\<open>emitEvent\<close>
  field of the result only.
\<close>

definition invoke :: "Action \<Rightarrow> IState \<Rightarrow> Messenger option \<Rightarrow> Exn + IActionLogData" where
  "invoke a s m =
     (case act_perform a s m of
        Inl err \<Rightarrow> Inl err
      | Inr result \<Rightarrow> Inr (result\<lparr>res_emitEvent := act_emitEvent a\<rparr>))"

subsection \<open>Insertion-ordered maps and arrays\<close>

definition Map_get :: "('k \<times> 'v) list \<Rightarrow> 'k \<Rightarrow> 'v option" where
  "Map_get m k = map_of m k"

definition Map_has :: "('k \<times> 'v) list \<Rightarrow> 'k \<Rightarrow> bool" where
  "Map_has m k = (map_of m k \<noteq> None)"

text \<open>\<^verbatim>\<open>Map.set\<close>: a key that is present keeps its place, a new key goes last.\<close>

fun Map_set :: "('k \<times> 'v) list \<Rightarrow> 'k \<Rightarrow> 'v \<Rightarrow> ('k \<times> 'v) list" where
  "Map_set [] k v = [(k, v)]"
| "Map_set ((k', v') # m) k v = (if k' = k then (k, v) # m else (k', v') # Map_set m k v)"

definition Map_values :: "('k \<times> 'v) list \<Rightarrow> 'v list" where
  "Map_values m = map snd m"

text \<open>
  \<^verbatim>\<open>xs.find(p)\<close> returns a reference to the first element that satisfies \<open>p\<close>; a later
  assignment to a field of that reference is \<open>update_first\<close>.
\<close>

fun update_first :: "('a \<Rightarrow> bool) \<Rightarrow> ('a \<Rightarrow> 'a) \<Rightarrow> 'a list \<Rightarrow> 'a list" where
  "update_first p f [] = []"
| "update_first p f (x # xs) = (if p x then f x # xs else x # update_first p f xs)"

subsection \<open>Workflow\<close>

record ITrigger =
  action :: Action
  condition :: "IState \<Rightarrow> IEvent \<Rightarrow> Exn + bool"

record Workflow =
  wf_key :: string
  initialStateKey :: string
  wf_state :: "IState option"
  initialStateData :: Data
  actions :: "(string \<times> Action) list"
  conditions :: "(string \<times> (string \<times> ITrigger) list) list"

definition setInitialStateData :: "Workflow \<Rightarrow> Data \<Rightarrow> Workflow" where
  "setInitialStateData w d = w\<lparr>initialStateData := d\<rparr>"

definition initState :: "Workflow \<Rightarrow> Workflow" where
  "initState w =
     w\<lparr>wf_state := Some \<lparr>st_key = initialStateKey w, st_data = initialStateData w\<rparr>\<rparr>"

definition getState :: "Workflow \<Rightarrow> IState option" where
  "getState w = wf_state w"

definition setState :: "Workflow \<Rightarrow> IState \<Rightarrow> Workflow" where
  "setState w s = w\<lparr>wf_state := Some s\<rparr>"

definition registerAction :: "Workflow \<Rightarrow> Action \<Rightarrow> (Exn + unit) \<times> Workflow" where
  "registerAction w a =
     (if Map_has (actions w) (act_key a)
      then (Inl (ActionKeyConflict (act_key a) (wf_key w)), w)
      else (Inr (), w\<lparr>actions := Map_set (actions w) (act_key a) a\<rparr>))"

text \<open>
  \<^verbatim>\<open>this.registerAction(action)\<close> comes first and is not guarded: when it throws,
  nothing after it runs.
\<close>

definition addTrigger ::
  "Workflow \<Rightarrow> string \<Rightarrow> Action \<Rightarrow> (IState \<Rightarrow> IEvent \<Rightarrow> Exn + bool) \<Rightarrow> (Exn + unit) \<times> Workflow" where
  "addTrigger w eventKey a cond =
     (case registerAction w a of
        (Inl err, wf1) \<Rightarrow> (Inl err, wf1)
      | (Inr _, wf1) \<Rightarrow>
          (let eventTriggers = (case Map_get (conditions wf1) eventKey of Some ts \<Rightarrow> ts | None \<Rightarrow> [])
           in if Map_has eventTriggers (act_key a)
              then (Inl (TriggerConflict (act_key a) eventKey (wf_key wf1)), wf1)
              else (Inr (),
                    wf1\<lparr>conditions :=
                      Map_set (conditions wf1) eventKey
                        (Map_set eventTriggers (act_key a) \<lparr>action = a, condition = cond\<rparr>)\<rparr>)))"

text \<open>The constructor: \<^verbatim>\<open>actions.forEach((action) => this.registerAction(action))\<close>.\<close>

fun registerActions :: "Workflow \<Rightarrow> Action list \<Rightarrow> Exn + Workflow" where
  "registerActions w [] = Inr w"
| "registerActions w (a # as) =
     (case registerAction w a of
        (Inl err, _) \<Rightarrow> Inl err
      | (Inr _, wf1) \<Rightarrow> registerActions wf1 as)"

definition Workflow_new :: "string \<Rightarrow> string \<Rightarrow> Action list \<Rightarrow> Exn + Workflow" where
  "Workflow_new k initialKey as =
     registerActions
       \<lparr>wf_key = k, initialStateKey = initialKey, wf_state = None, initialStateData = [],
        actions = [], conditions = []\<rparr> as"

subsection \<open>Workflow.handleEvent\<close>

text \<open>
  The calls a run makes to the callbacks, in order, each named by the key of the
  action of the trigger it belongs to. This list is not in the source: it records
  which callbacks the source's loop calls, so that "is invoked" and "is not
  evaluated" can be stated.
\<close>

datatype Call = ConditionCall string | CanBeInvokedCall string | InvokeCall string

definition failed :: "string \<Rightarrow> IActionLogData" where
  "failed msg =
     \<lparr>action_key = None, cost = 0, res_success = False, res_message = Some msg,
      res_data = Some [], new_state = None, res_emitEvent = None\<rparr>"

text \<open>
  The \<^verbatim>\<open>for (const { action, condition } of triggers.values())\<close> loop with the
  \<^verbatim>\<open>return\<close> after it. \<open>s\<close> is \<^verbatim>\<open>this.state\<close>, which no iteration changes before
  it returns. The result is what the call returns or throws, the new value of
  \<^verbatim>\<open>this.state\<close>, and the calls made.
\<close>

fun for_triggers ::
  "ITrigger list \<Rightarrow> IState \<Rightarrow> IEvent \<Rightarrow> Messenger option
     \<Rightarrow> (Exn + IActionLogData) \<times> IState option \<times> Call list" where
  "for_triggers [] s ev m =
     (Inr (failed (''No valid action could be executed for event '' @ quoted (ev_key ev))), Some s, [])"
| "for_triggers (t # ts) s ev m =
     (let k = act_key (action t) in
      case condition t s ev of
        Inl err \<Rightarrow> (Inl err, Some s, [ConditionCall k])
      | Inr c \<Rightarrow>
          if \<not> c then
            (case for_triggers ts s ev m of (r, s', calls) \<Rightarrow> (r, s', ConditionCall k # calls))
          else
            (case canBeInvoked (action t) s of
               Inl err \<Rightarrow> (Inl err, Some s, [ConditionCall k, CanBeInvokedCall k])
             | Inr canInvoke \<Rightarrow>
                 if \<not> can canInvoke then
                   (case for_triggers ts s ev m of
                      (r, s', calls) \<Rightarrow> (r, s', ConditionCall k # CanBeInvokedCall k # calls))
                 else
                   (case invoke (action t) s m of
                      Inr result \<Rightarrow>
                        (Inr result,
                         (if res_success result then new_state result else Some s),
                         [ConditionCall k, CanBeInvokedCall k, InvokeCall k])
                    | Inl err \<Rightarrow>
                        (Inr (failed (case exn_message err of
                                        Some msg \<Rightarrow> msg
                                      | None \<Rightarrow> ''Action execution failed'')),
                         Some s,
                         [ConditionCall k, CanBeInvokedCall k, InvokeCall k]))))"

definition Workflow_handleEvent ::
  "Workflow \<Rightarrow> IEvent \<Rightarrow> Messenger option \<Rightarrow> (Exn + IActionLogData) \<times> Workflow \<times> Call list" where
  "Workflow_handleEvent w ev m =
     (case wf_state w of
        None \<Rightarrow> (Inr (failed ''Invalid state''), w, [])
      | Some s \<Rightarrow>
          (case Map_get (conditions w) (ev_key ev) of
             None \<Rightarrow> (Inr (failed (''No triggers registered for event '' @ quoted (ev_key ev))), w, [])
           | Some triggers \<Rightarrow>
               if length triggers = 0
               then (Inr (failed (''No triggers registered for event '' @ quoted (ev_key ev))), w, [])
               else (case for_triggers (Map_values triggers) s ev m of
                       (r, s', calls) \<Rightarrow> (r, w\<lparr>wf_state := s'\<rparr>, calls))))"

subsection \<open>Orchestrator\<close>

record ITask =
  tk_id :: string
  workflowKey :: string
  tk_state :: IState
  createdAt :: string

record Orchestrator =
  messenger :: "Messenger option"
  workflows :: "Workflow list"
  tasks :: "ITask list"
  logs :: "IInvocationLog list"

definition Orchestrator_new :: "Workflow list \<Rightarrow> Messenger option \<Rightarrow> Orchestrator" where
  "Orchestrator_new ws m = \<lparr>messenger = m, workflows = ws, tasks = [], logs = []\<rparr>"

definition registerWorkflow :: "Orchestrator \<Rightarrow> Workflow \<Rightarrow> Orchestrator" where
  "registerWorkflow orch w = orch\<lparr>workflows := workflows orch @ [w]\<rparr>"

definition getWorkflow :: "Orchestrator \<Rightarrow> string \<Rightarrow> Workflow option" where
  "getWorkflow orch k = find (\<lambda>w. wf_key w = k) (workflows orch)"

definition getTask :: "Orchestrator \<Rightarrow> string \<Rightarrow> ITask option" where
  "getTask orch taskId = find (\<lambda>t. tk_id t = taskId) (tasks orch)"

text \<open>
  \<open>uuid\<close> is what \<^verbatim>\<open>uuidv4()\<close> returns and \<open>now\<close> what \<^verbatim>\<open>new Date()\<close> returns in this
  call. \<^verbatim>\<open>if (initialData)\<close> holds for every object, so it is the test that the
  argument was given.
\<close>

definition initTask ::
  "Orchestrator \<Rightarrow> string \<Rightarrow> Data option \<Rightarrow> string \<Rightarrow> string \<Rightarrow> (Exn + ITask) \<times> Orchestrator" where
  "initTask orch k initialData uuid now =
     (case getWorkflow orch k of
        None \<Rightarrow> (Inl (WorkflowNotFound k), orch)
      | Some workflow \<Rightarrow>
          (let wf1 = (case initialData of
                        Some d \<Rightarrow> setInitialStateData workflow d
                      | None \<Rightarrow> workflow);
               wf2 = initState wf1;
               task = \<lparr>tk_id = uuid, workflowKey = wf_key wf2,
                       tk_state = the (getState wf2), createdAt = now\<rparr>
           in (Inr task,
               orch\<lparr>workflows := update_first (\<lambda>w. wf_key w = k) (\<lambda>_. wf2) (workflows orch),
                    tasks := tasks orch @ [task]\<rparr>)))"

text \<open>\<^verbatim>\<open>!!result.action_key\<close>: the key is defined and is not the empty string.\<close>

definition truthy :: "string option \<Rightarrow> bool" where
  "truthy k = (case k of None \<Rightarrow> False | Some s \<Rightarrow> s \<noteq> [])"

text \<open>\<open>now\<close> is what \<^verbatim>\<open>new Date().toISOString()\<close> returns in this call.\<close>

definition Orchestrator_handleEvent ::
  "Orchestrator \<Rightarrow> string \<Rightarrow> IEvent \<Rightarrow> string \<Rightarrow> (Exn + IInvocationLog) \<times> Orchestrator" where
  "Orchestrator_handleEvent orch taskId ev now =
     (case getTask orch taskId of
        None \<Rightarrow>
          (Inr \<lparr>timestamp = now, task_id = taskId, log_success = False,
                log_message = Some (''Task '' @ quoted taskId @ '' not found''),
                event = ev, action_log_data = None\<rparr>,
           orch)
      | Some task \<Rightarrow>
          (case getWorkflow orch (workflowKey task) of
             None \<Rightarrow>
               (Inr \<lparr>timestamp = now, task_id = tk_id task, log_success = False,
                     log_message = Some (''Workflow '' @ quoted (workflowKey task) @ '' not found for task''),
                     event = ev, action_log_data = None\<rparr>,
                orch)
           | Some workflow \<Rightarrow>
               (case Workflow_handleEvent (setState workflow (tk_state task)) ev (messenger orch) of
                  (Inl err, w', calls) \<Rightarrow>
                    (Inl err,
                     orch\<lparr>workflows :=
                       update_first (\<lambda>w. wf_key w = workflowKey task) (\<lambda>_. w') (workflows orch)\<rparr>)
                | (Inr result, w', calls) \<Rightarrow>
                    (let invocation_log =
                           \<lparr>timestamp = now, task_id = tk_id task,
                            log_success = truthy (action_key result),
                            log_message = None, event = ev, action_log_data = Some result\<rparr>
                     in (Inr invocation_log,
                         orch\<lparr>workflows :=
                                update_first (\<lambda>w. wf_key w = workflowKey task) (\<lambda>_. w') (workflows orch),
                              tasks :=
                                update_first (\<lambda>t. tk_id t = taskId)
                                  (\<lambda>t. t\<lparr>tk_state :=
                                     (if res_success result
                                      then (case new_state result of Some s \<Rightarrow> s | None \<Rightarrow> tk_state t)
                                      else tk_state t)\<rparr>)
                                  (tasks orch),
                              logs := logs orch @ [invocation_log]\<rparr>)))))"

subsection \<open>Registration sequences and the triggers of an event\<close>

text \<open>
  A caller configures a workflow by a sequence of \<^verbatim>\<open>addTrigger\<close> calls; the first
  call that throws ends the sequence.
\<close>

fun addTriggers ::
  "Workflow \<Rightarrow> (string \<times> Action \<times> (IState \<Rightarrow> IEvent \<Rightarrow> Exn + bool)) list \<Rightarrow> Exn + Workflow" where
  "addTriggers w [] = Inr w"
| "addTriggers w ((eventKey, a, cond) # regs) =
     (case addTrigger w eventKey a cond of
        (Inl err, _) \<Rightarrow> Inl err
      | (Inr _, w1) \<Rightarrow> addTriggers w1 regs)"

text \<open>The triggers a registration sequence binds to one event key, in the order of the calls.\<close>

definition registered_for ::
  "string \<Rightarrow> (string \<times> Action \<times> (IState \<Rightarrow> IEvent \<Rightarrow> Exn + bool)) list \<Rightarrow> ITrigger list" where
  "registered_for eventKey regs =
     map (\<lambda>(ek, a, cond). \<lparr>action = a, condition = cond\<rparr>) (filter (\<lambda>(ek, a, cond). ek = eventKey) regs)"

text \<open>\<^verbatim>\<open>this.conditions.get(eventKey)\<close>, as the list the loop iterates over.\<close>

definition triggers_for :: "Workflow \<Rightarrow> string \<Rightarrow> ITrigger list" where
  "triggers_for w eventKey =
     (case Map_get (conditions w) eventKey of None \<Rightarrow> [] | Some ts \<Rightarrow> Map_values ts)"

text \<open>
  What one iteration of the loop does with a trigger. It passes when its condition
  returns true and its guard returns \<^verbatim>\<open>can: true\<close>; it is skipped (\<^verbatim>\<open>continue\<close>)
  when its condition returns false, or returns true and the guard returns
  \<^verbatim>\<open>can: false\<close>. A trigger whose condition or guard throws does neither.
\<close>

definition trigger_passes :: "ITrigger \<Rightarrow> IState \<Rightarrow> IEvent \<Rightarrow> bool" where
  "trigger_passes t s ev =
     (case condition t s ev of
        Inl _ \<Rightarrow> False
      | Inr c \<Rightarrow> c \<and> (case canBeInvoked (action t) s of Inl _ \<Rightarrow> False | Inr g \<Rightarrow> can g))"

definition trigger_skipped :: "ITrigger \<Rightarrow> IState \<Rightarrow> IEvent \<Rightarrow> bool" where
  "trigger_skipped t s ev =
     (case condition t s ev of
        Inl _ \<Rightarrow> False
      | Inr c \<Rightarrow> \<not> c \<or> (case canBeInvoked (action t) s of Inl _ \<Rightarrow> False | Inr g \<Rightarrow> \<not> can g))"

definition trigger_throws :: "ITrigger \<Rightarrow> IState \<Rightarrow> IEvent \<Rightarrow> bool" where
  "trigger_throws t s ev =
     (case condition t s ev of
        Inl _ \<Rightarrow> True
      | Inr c \<Rightarrow> c \<and> (case canBeInvoked (action t) s of Inl _ \<Rightarrow> True | Inr _ \<Rightarrow> False))"

text \<open>The callbacks the loop calls on a trigger it skips, and on the trigger it selects.\<close>

definition skip_calls :: "IState \<Rightarrow> IEvent \<Rightarrow> ITrigger \<Rightarrow> Call list" where
  "skip_calls s ev t =
     (case condition t s ev of
        Inr True \<Rightarrow> [ConditionCall (act_key (action t)), CanBeInvokedCall (act_key (action t))]
      | _ \<Rightarrow> [ConditionCall (act_key (action t))])"

definition select_calls :: "ITrigger \<Rightarrow> Call list" where
  "select_calls t =
     [ConditionCall (act_key (action t)), CanBeInvokedCall (act_key (action t)),
      InvokeCall (act_key (action t))]"

text \<open>The \<^verbatim>\<open>try { ... } catch (err) { ... }\<close> around the invocation, as a value.\<close>

definition try_invoke :: "ITrigger \<Rightarrow> IState \<Rightarrow> Messenger option \<Rightarrow> IActionLogData" where
  "try_invoke t s m =
     (case invoke (action t) s m of
        Inr result \<Rightarrow> result
      | Inl err \<Rightarrow>
          failed (case exn_message err of Some msg \<Rightarrow> msg | None \<Rightarrow> ''Action execution failed''))"

definition is_invoke :: "Call \<Rightarrow> bool" where
  "is_invoke c = (case c of InvokeCall _ \<Rightarrow> True | _ \<Rightarrow> False)"

subsection \<open>The procurement example of the repository, and variations of it\<close>

text \<open>The constructor of \<^verbatim>\<open>Action\<close>.\<close>

definition Action_new ::
  "string \<Rightarrow> string \<Rightarrow> (IState \<Rightarrow> Exn + TCanBeInvoked)
     \<Rightarrow> (IState \<Rightarrow> Messenger option \<Rightarrow> Exn + IActionLogData) \<Rightarrow> IEmitEvent option \<Rightarrow> Action" where
  "Action_new k d guard perform emit =
     \<lparr>act_key = k, act_description = d, act_emitEvent = emit,
      act_canBeInvoked = guard, act_perform = perform\<rparr>"

text \<open>\<^verbatim>\<open>examples/procurement/actions.ts\<close>\<close>

definition processRfqAction :: Action where
  "processRfqAction =
     Action_new ''process_rfq'' ''Process the RFQ file''
       (\<lambda>s. Inr \<lparr>can = (st_key s = ''rfq_uploaded''), cbi_description = ''RFQ must be uploaded first''\<rparr>)
       (\<lambda>s m. Inr \<lparr>action_key = Some ''process_rfq'', cost = 10, res_success = True,
                    res_message = None,
                    res_data = Some [(''rfq_id'', JsString ''12345''),
                                     (''rfq_requirements'', JsArray [JsString ''1'', JsString ''2''])],
                    new_state = Some (s\<lparr>st_key := ''processing''\<rparr>), res_emitEvent = None\<rparr>)
       None"

definition notifyRoleSelectionAction :: Action where
  "notifyRoleSelectionAction =
     Action_new ''notify_role_selection'' ''Notify human for role selection.''
       (\<lambda>s. Inr \<lparr>can = (st_key s = ''processing''), cbi_description = ''File must be in processing state''\<rparr>)
       (\<lambda>s m. Inr \<lparr>action_key = Some ''notify_role_selection'', cost = 2, res_success = True,
                    res_message = None,
                    res_data = Some [(''notification_channel'', JsString ''role_assignment_channel'')],
                    new_state = Some (s\<lparr>st_key := ''awaiting_role_assignment''\<rparr>), res_emitEvent = None\<rparr>)
       None"

text \<open>Variations: an action that is always allowed, with the body given.\<close>

definition plainAction :: "string \<Rightarrow> (IState \<Rightarrow> Messenger option \<Rightarrow> Exn + IActionLogData) \<Rightarrow> Action" where
  "plainAction k perform =
     Action_new k [] (\<lambda>s. Inr \<lparr>can = True, cbi_description = []\<rparr>) perform None"

text \<open>An action that archives the file: it would run on any state.\<close>

definition archiveAction :: Action where
  "archiveAction =
     plainAction ''archive''
       (\<lambda>s m. Inr \<lparr>action_key = Some ''archive'', cost = 1, res_success = True, res_message = None,
                    res_data = None, new_state = Some (s\<lparr>st_key := ''archived''\<rparr>),
                    res_emitEvent = None\<rparr>)"

text \<open>An action whose body throws \<^verbatim>\<open>new Error("RFQ parser crashed")\<close>.\<close>

definition crashingAction :: Action where
  "crashingAction = plainAction ''parse_rfq'' (\<lambda>s m. Inl (Thrown (Some ''RFQ parser crashed'')))"

text \<open>
  An action whose body throws the string \<^verbatim>\<open>"RFQ rejected"\<close>: a thrown value that has
  no \<^verbatim>\<open>message\<close> property.
\<close>

definition rejectingAction :: Action where
  "rejectingAction = plainAction ''reject_rfq'' (\<lambda>s m. Inl (Thrown None))"

text \<open>An action that reports success and returns no \<^verbatim>\<open>new_state\<close>.\<close>

definition acknowledgeAction :: Action where
  "acknowledgeAction =
     plainAction ''acknowledge''
       (\<lambda>s m. Inr \<lparr>action_key = Some ''acknowledge'', cost = 0, res_success = True,
                    res_message = None, res_data = None, new_state = None, res_emitEvent = None\<rparr>)"

text \<open>An action whose key is the empty string, which its result carries.\<close>

definition unnamedAction :: Action where
  "unnamedAction =
     plainAction []
       (\<lambda>s m. Inr \<lparr>action_key = Some [], cost = 0, res_success = True, res_message = None,
                    res_data = None, new_state = Some (s\<lparr>st_key := ''processing''\<rparr>),
                    res_emitEvent = None\<rparr>)"

definition whenUploaded :: "IState \<Rightarrow> IEvent \<Rightarrow> Exn + bool" where
  "whenUploaded s ev = Inr (st_key s = ''rfq_uploaded'')"

definition whenProcessing :: "IState \<Rightarrow> IEvent \<Rightarrow> Exn + bool" where
  "whenProcessing s ev = Inr (st_key s = ''processing'')"

text \<open>
  \<^verbatim>\<open>(state, event) => event.payload.approved === true\<close>: reading a property of an
  absent payload throws a TypeError.
\<close>

definition whenApproved :: "IState \<Rightarrow> IEvent \<Rightarrow> Exn + bool" where
  "whenApproved s ev =
     (case ev_payload ev of
        None \<Rightarrow> Inl (Thrown (Some ''Cannot read properties of undefined''))
      | Some p \<Rightarrow> Inr (map_of p ''approved'' = Some (JsBool True)))"

text \<open>
  \<^verbatim>\<open>new Workflow("rfq_procurement", "rfq_uploaded")\<close> followed by the given
  \<^verbatim>\<open>addTrigger\<close> calls.
\<close>

definition emptyWorkflow :: Workflow where
  "emptyWorkflow =
     \<lparr>wf_key = ''rfq_procurement'', initialStateKey = ''rfq_uploaded'', wf_state = None,
      initialStateData = [], actions = [], conditions = []\<rparr>"

definition workflowWith ::
  "(string \<times> Action \<times> (IState \<Rightarrow> IEvent \<Rightarrow> Exn + bool)) list \<Rightarrow> Workflow" where
  "workflowWith regs = (case addTriggers emptyWorkflow regs of Inr w \<Rightarrow> w | Inl _ \<Rightarrow> emptyWorkflow)"

text \<open>\<^verbatim>\<open>examples/procurement/workflows.ts\<close>\<close>

definition rfqProcurementWorkflow :: Workflow where
  "rfqProcurementWorkflow =
     workflowWith
       [(''rfq_uploaded_event'', processRfqAction, whenUploaded),
        (''rfq_processed_event'', notifyRoleSelectionAction, whenProcessing)]"

definition uploadedState :: IState where
  "uploadedState =
     \<lparr>st_key = ''rfq_uploaded'', st_data = [(''fileUrl'', JsString ''https://example.com/rfq.pdf'')]\<rparr>"

definition uploadedEvent :: IEvent where
  "uploadedEvent = \<lparr>ev_key = ''rfq_uploaded_event'', ev_payload = Some []\<rparr>"

text \<open>
  An orchestrator with one workflow and one task, created by
  \<^verbatim>\<open>initTask("rfq_procurement", { fileUrl: "https://example.com/rfq.pdf" })\<close>.
\<close>

definition orchestratorWith :: "Workflow \<Rightarrow> Orchestrator" where
  "orchestratorWith w =
     snd (initTask (Orchestrator_new [w] None) ''rfq_procurement''
            (Some [(''fileUrl'', JsString ''https://example.com/rfq.pdf'')]) ''task-1'' ''2024-01-01'')"

definition procurementOrchestrator :: Orchestrator where
  "procurementOrchestrator = orchestratorWith rfqProcurementWorkflow"

definition acknowledgingOrchestrator :: Orchestrator where
  "acknowledgingOrchestrator =
     orchestratorWith (workflowWith [(''rfq_uploaded_event'', acknowledgeAction, whenUploaded)])"

definition unnamedOrchestrator :: Orchestrator where
  "unnamedOrchestrator =
     orchestratorWith (workflowWith [(''rfq_uploaded_event'', unnamedAction, whenUploaded)])"

definition crashingOrchestrator :: Orchestrator where
  "crashingOrchestrator =
     orchestratorWith (workflowWith [(''rfq_uploaded_event'', crashingAction, whenUploaded)])"

definition approvalOrchestrator :: Orchestrator where
  "approvalOrchestrator =
     orchestratorWith (workflowWith [(''rfq_approved_event'', processRfqAction, whenApproved)])"

text \<open>\<^verbatim>\<open>{ key: "rfq_approved_event" }\<close>, an event without a payload.\<close>

definition approvedEvent :: IEvent where
  "approvedEvent = \<lparr>ev_key = ''rfq_approved_event'', ev_payload = None\<rparr>"

subsection \<open>Reading the outcome of Orchestrator.handleEvent\<close>

text \<open>The entry a call returned, and the workflow's result recorded in it.\<close>

definition returned_log :: "(Exn + IInvocationLog) \<times> Orchestrator \<Rightarrow> IInvocationLog option" where
  "returned_log x = (case fst x of Inl _ \<Rightarrow> None | Inr l \<Rightarrow> Some l)"

definition workflow_result :: "(Exn + IInvocationLog) \<times> Orchestrator \<Rightarrow> IActionLogData option" where
  "workflow_result x = (case fst x of Inl _ \<Rightarrow> None | Inr l \<Rightarrow> action_log_data l)"

subsection \<open>An invariant of the registries\<close>

text \<open>Every trigger is bound to an action key that the action registry holds.\<close>

definition triggers_registered :: "Workflow \<Rightarrow> bool" where
  "triggers_registered w =
     (\<forall>(ek, ts) \<in> set (conditions w). \<forall>(k, t) \<in> set ts. Map_has (actions w) k)"

section \<open>Properties\<close>

subsection \<open>Maps and arrays\<close>

lemma map_of_Map_set: "map_of (Map_set m k v) k' = (if k' = k then Some v else map_of m k')"
  by (induction m) auto

lemma Map_get_Map_set: "Map_get (Map_set m k v) k' = (if k' = k then Some v else Map_get m k')"
  by (simp add: Map_get_def map_of_Map_set)

lemma Map_set_new: "map_of m k = None \<Longrightarrow> Map_set m k v = m @ [(k, v)]"
  by (induction m) (auto split: if_splits)

lemma Map_values_Nil: "Map_values [] = []"
  by (simp add: Map_values_def)

lemma Map_values_Cons: "Map_values ((k, v) # m) = v # Map_values m"
  by (simp add: Map_values_def)

lemma Map_has_Nil: "\<not> Map_has [] k"
  by (simp add: Map_has_def)

lemma Map_values_Map_set_new: "\<not> Map_has m k \<Longrightarrow> Map_values (Map_set m k v) = Map_values m @ [v]"
  by (simp add: Map_has_def Map_values_def Map_set_new)

text \<open>
  After \<^verbatim>\<open>const x = xs.find(p)\<close> and an update of \<open>x\<close> that keeps \<open>p\<close>, the same search
  finds the updated element; a search that the update does not affect and that
  matches no element the first one matches finds what it found before.
\<close>

lemma find_update_first_same:
  assumes "\<And>x. p x \<Longrightarrow> p (f x)"
  shows "find p (update_first p f xs) = map_option f (find p xs)"
  using assms by (induction xs) auto

lemma find_update_first_other:
  assumes "\<And>x. q (f x) = q x" and "\<And>x. q x \<Longrightarrow> \<not> p x"
  shows "find q (update_first p f xs) = find q xs"
  using assms by (induction xs) auto

lemma getState_initState:
  "getState (initState w) = Some \<lparr>st_key = initialStateKey w, st_data = initialStateData w\<rparr>"
  by (simp add: getState_def initState_def)

subsection \<open>Registration order\<close>

text \<open>
  A successful \<^verbatim>\<open>addTrigger\<close> puts the new trigger after the triggers the event key
  already has, and leaves the other event keys and the state alone. So the list
  the loop iterates over is the list of successful registrations, in order.
\<close>

lemma addTrigger_order:
  assumes "addTrigger w ek a c = (Inr u, w')"
  shows "triggers_for w' ek' =
    (if ek' = ek then triggers_for w ek @ [\<lparr>action = a, condition = c\<rparr>] else triggers_for w ek')"
    and "wf_state w' = wf_state w" and "wf_key w' = wf_key w"
  using assms
  by (auto simp: addTrigger_def registerAction_def triggers_for_def Let_def Map_get_Map_set
      Map_values_Map_set_new Map_values_Nil Map_values_Cons Map_has_Nil
      split: if_splits option.splits)

lemma addTriggers_order:
  assumes "addTriggers w regs = Inr w'"
  shows "triggers_for w' ek = triggers_for w ek @ registered_for ek regs \<and> wf_state w' = wf_state w"
  using assms
proof (induction regs arbitrary: w)
  case Nil
  then show ?case by (simp add: registered_for_def)
next
  case (Cons reg regs)
  obtain ek' a c where reg: "reg = (ek', a, c)" by (cases reg) auto
  from Cons.prems reg obtain u w1 where
    step: "addTrigger w ek' a c = (Inr u, w1)" and rest: "addTriggers w1 regs = Inr w'"
    by (auto split: prod.splits sum.splits)
  from Cons.IH [OF rest] addTrigger_order [OF step] reg
  show ?case by (auto simp: registered_for_def)
qed

lemma triggers_for_setState: "triggers_for (setState w s) ek = triggers_for w ek"
  by (simp add: triggers_for_def setState_def)

subsection \<open>The loop\<close>

lemma for_triggers_skip:
  assumes "trigger_skipped p s ev"
  shows "for_triggers (p # ts) s ev m =
    (case for_triggers ts s ev m of (r, s', calls) \<Rightarrow> (r, s', skip_calls s ev p @ calls))"
  using assms
  by (auto simp: trigger_skipped_def skip_calls_def Let_def split: sum.splits prod.splits bool.splits)

lemma for_triggers_pass:
  assumes "trigger_passes t s ev"
  shows "for_triggers (t # ts) s ev m =
    (Inr (try_invoke t s m),
     (if res_success (try_invoke t s m) then new_state (try_invoke t s m) else Some s),
     select_calls t)"
  using assms
  by (auto simp: trigger_passes_def try_invoke_def select_calls_def failed_def Let_def split: sum.splits)

lemma for_triggers_throw:
  assumes "trigger_throws t s ev"
  shows "\<exists>err calls. for_triggers (t # ts) s ev m = (Inl err, Some s, calls)"
  using assms
  by (auto simp: trigger_throws_def Let_def split: sum.splits)

lemma trigger_trichotomy: "trigger_passes t s ev \<or> trigger_skipped t s ev \<or> trigger_throws t s ev"
  by (auto simp: trigger_passes_def trigger_skipped_def trigger_throws_def split: sum.splits)

lemma for_triggers_first_match:
  assumes "\<forall>p \<in> set pre. trigger_skipped p s ev" and "trigger_passes t s ev"
  shows "for_triggers (pre @ t # post) s ev m =
    (Inr (try_invoke t s m),
     (if res_success (try_invoke t s m) then new_state (try_invoke t s m) else Some s),
     concat (map (skip_calls s ev) pre) @ select_calls t)"
  using assms
proof (induction pre)
  case Nil
  then show ?case by (simp add: for_triggers_pass del: for_triggers.simps)
next
  case (Cons p pre)
  then show ?case by (simp add: for_triggers_skip del: for_triggers.simps)
qed

text \<open>
  A check that throws after skipped triggers ends the loop with what it threw:
  the state is kept, no action is invoked and no later trigger is looked at.
\<close>

lemma for_triggers_check_throws:
  assumes "\<forall>p \<in> set pre. trigger_skipped p s ev" and "trigger_throws t s ev"
  shows "\<exists>err calls. for_triggers (pre @ t # post) s ev m =
           (Inl err, Some s, concat (map (skip_calls s ev) pre) @ calls)
         \<and> filter is_invoke calls = []
         \<and> (condition t s ev = Inl err \<or> canBeInvoked (action t) s = Inl err)"
  using assms
proof (induction pre)
  case Nil
  then show ?case
    by (auto simp: trigger_throws_def Let_def is_invoke_def split: sum.splits)
next
  case (Cons p pre)
  then show ?case
    by (auto simp: for_triggers_skip simp del: for_triggers.simps)
qed

lemma for_triggers_no_match:
  assumes "\<forall>p \<in> set ts. trigger_skipped p s ev"
  shows "for_triggers ts s ev m =
    (Inr (failed (''No valid action could be executed for event '' @ quoted (ev_key ev))), Some s,
     concat (map (skip_calls s ev) ts))"
  using assms
proof (induction ts)
  case Nil
  then show ?case by simp
next
  case (Cons p ts)
  then show ?case by (simp add: for_triggers_skip del: for_triggers.simps)
qed

text \<open>With callbacks that return, the loop returns: every trigger passes or is skipped.\<close>

lemma for_triggers_returns:
  assumes "\<forall>p \<in> set ts. \<not> trigger_throws p s ev"
  shows "\<exists>r s' calls. for_triggers ts s ev m = (Inr r, s', calls)"
  using assms
proof (induction ts)
  case Nil
  then show ?case by simp
next
  case (Cons p ts)
  from Cons.prems have "trigger_passes p s ev \<or> trigger_skipped p s ev"
    using trigger_trichotomy [of p s ev] by auto
  then show ?case
  proof
    assume "trigger_passes p s ev"
    then show ?thesis by (simp add: for_triggers_pass del: for_triggers.simps)
  next
    assume skip: "trigger_skipped p s ev"
    from Cons obtain r s' calls where "for_triggers ts s ev m = (Inr r, s', calls)" by auto
    with skip show ?thesis by (simp add: for_triggers_skip del: for_triggers.simps)
  qed
qed

text \<open>A result that reports success comes from an invocation, and sets the state to its \<open>new_state\<close>.\<close>

lemma for_triggers_success:
  assumes "for_triggers ts s ev m = (Inr r, s', calls)" and "res_success r"
  shows "s' = new_state r \<and> (\<exists>k. InvokeCall k \<in> set calls)"
  using assms
proof (induction ts arbitrary: calls)
  case Nil
  then show ?case by (auto simp: failed_def)
next
  case (Cons t ts)
  then show ?case
    by (auto simp: Let_def failed_def split: sum.splits if_splits prod.splits)
qed

lemma skip_calls_no_invoke: "filter is_invoke (concat (map (skip_calls s ev) ts)) = []"
  by (induction ts) (auto simp: skip_calls_def is_invoke_def split: sum.splits bool.splits)

subsection \<open>Workflow.handleEvent\<close>

lemma Workflow_handleEvent_loop:
  assumes "wf_state w = Some s" and "triggers_for w (ev_key ev) \<noteq> []"
  shows "Workflow_handleEvent w ev m =
    (case for_triggers (triggers_for w (ev_key ev)) s ev m of
       (r, s', calls) \<Rightarrow> (r, w\<lparr>wf_state := s'\<rparr>, calls))"
  using assms
  by (auto simp: Workflow_handleEvent_def triggers_for_def Map_values_def split: option.splits)

lemma Workflow_handleEvent_no_triggers:
  assumes "wf_state w = Some s" and "triggers_for w (ev_key ev) = []"
  shows "Workflow_handleEvent w ev m =
    (Inr (failed (''No triggers registered for event '' @ quoted (ev_key ev))), w, [])"
  using assms
  by (auto simp: Workflow_handleEvent_def triggers_for_def Map_values_def split: option.splits)

lemma Workflow_handleEvent_no_state:
  assumes "wf_state w = None"
  shows "Workflow_handleEvent w ev m = (Inr (failed ''Invalid state''), w, [])"
  using assms by (simp add: Workflow_handleEvent_def)

lemma Workflow_same_state: "wf_state w = Some s \<Longrightarrow> w\<lparr>wf_state := Some s\<rparr> = w"
  by (cases w) simp

lemma Workflow_handleEvent_key:
  assumes "Workflow_handleEvent w ev m = (r, w', calls)"
  shows "wf_key w' = wf_key w"
  using assms
  by (auto simp: Workflow_handleEvent_def split: option.splits if_splits prod.splits)

lemma Workflow_handleEvent_success:
  assumes "Workflow_handleEvent w ev m = (Inr r, w', calls)" and "res_success r"
  shows "wf_state w' = new_state r \<and> (\<exists>k. InvokeCall k \<in> set calls)"
proof (cases "wf_state w")
  case None
  with assms show ?thesis by (auto simp: Workflow_handleEvent_def failed_def)
next
  case (Some s)
  show ?thesis
  proof (cases "triggers_for w (ev_key ev) = []")
    case True
    with assms Some show ?thesis by (auto simp: Workflow_handleEvent_no_triggers failed_def)
  next
    case False
    with assms Some obtain s' where
      "for_triggers (triggers_for w (ev_key ev)) s ev m = (Inr r, s', calls)" and "w' = w\<lparr>wf_state := s'\<rparr>"
      by (auto simp: Workflow_handleEvent_loop split: prod.splits)
    with for_triggers_success [of _ s ev m r s' calls] assms(2) show ?thesis by auto
  qed
qed

text \<open>With callbacks that return, the call returns.\<close>

lemma Workflow_handleEvent_returns:
  assumes "\<And>s. wf_state w = Some s \<Longrightarrow> \<forall>p \<in> set (triggers_for w (ev_key ev)). \<not> trigger_throws p s ev"
  shows "\<exists>r w' calls. Workflow_handleEvent w ev m = (Inr r, w', calls)"
proof (cases "wf_state w")
  case None
  then show ?thesis by (simp add: Workflow_handleEvent_def)
next
  case (Some s)
  show ?thesis
  proof (cases "triggers_for w (ev_key ev) = []")
    case True
    with Some show ?thesis by (simp add: Workflow_handleEvent_no_triggers)
  next
    case False
    from for_triggers_returns [OF assms [OF Some], of m] obtain r s' calls where
      "for_triggers (triggers_for w (ev_key ev)) s ev m = (Inr r, s', calls)" by auto
    with Some False show ?thesis by (simp add: Workflow_handleEvent_loop)
  qed
qed

subsection \<open>Evaluating the examples\<close>

lemmas example_defs =
  Action_new_def processRfqAction_def notifyRoleSelectionAction_def plainAction_def
  archiveAction_def crashingAction_def rejectingAction_def acknowledgeAction_def
  unnamedAction_def
  whenUploaded_def whenProcessing_def whenApproved_def emptyWorkflow_def workflowWith_def
  rfqProcurementWorkflow_def uploadedState_def uploadedEvent_def orchestratorWith_def
  procurementOrchestrator_def acknowledgingOrchestrator_def unnamedOrchestrator_def
  crashingOrchestrator_def approvalOrchestrator_def approvedEvent_def

lemmas model_defs =
  quoted_def canBeInvoked_def invoke_def Map_get_def Map_has_def Map_values_def
  setInitialStateData_def initState_def getState_def setState_def registerAction_def
  addTrigger_def Workflow_new_def failed_def Workflow_handleEvent_def Orchestrator_new_def
  registerWorkflow_def getWorkflow_def getTask_def initTask_def truthy_def
  Orchestrator_handleEvent_def registered_for_def triggers_for_def trigger_passes_def
  trigger_skipped_def trigger_throws_def skip_calls_def select_calls_def try_invoke_def
  is_invoke_def returned_log_def workflow_result_def Let_def

lemma workflowWith_triggers:
  assumes "addTriggers emptyWorkflow regs = Inr w"
  shows "triggers_for (setState w s) ek = registered_for ek regs"
  using addTriggers_order [OF assms, of ek]
  by (simp add: triggers_for_setState) (simp add: triggers_for_def Map_get_def emptyWorkflow_def)

section \<open>Claims about Workflow.handleEvent\<close>

text \<open>
  C2, as the code has it. Let a workflow be configured by a sequence of successful
  \<^verbatim>\<open>addTrigger\<close> calls and hold the state \<open>s\<close>. List the triggers bound to the event's
  key in the order they were registered, and let \<open>t\<close> be the first that passes both
  checks, every trigger registered before it being skipped: its condition
  returned false, or its guard returned \<^verbatim>\<open>can: false\<close>. Then \<^verbatim>\<open>handleEvent\<close> evaluates
  the triggers before \<open>t\<close> in that order, invokes the action of \<open>t\<close> once and calls
  nothing else: no condition, guard or action of a later trigger, whatever the
  later triggers are, and also when the invocation returns a failure or throws.
  What it returns is the result of that one invocation, or the failure made from
  what the invocation threw.
\<close>

theorem first_match_wins:
  assumes "addTriggers w0 regs = Inr w"
    and "triggers_for w0 (ev_key ev) @ registered_for (ev_key ev) regs = pre @ t # post"
    and "\<forall>p \<in> set pre. trigger_skipped p s ev"
    and "trigger_passes t s ev"
  shows "\<exists>r w'. Workflow_handleEvent (setState w s) ev m =
           (Inr r, w',
            concat (map (skip_calls s ev) pre) @
              [ConditionCall (act_key (action t)), CanBeInvokedCall (act_key (action t)),
               InvokeCall (act_key (action t))])
         \<and> (case invoke (action t) s m of
              Inr result \<Rightarrow> r = result
            | Inl err \<Rightarrow>
                r = failed (case exn_message err of Some msg \<Rightarrow> msg | None \<Rightarrow> ''Action execution failed''))"
proof -
  let ?w = "setState w s"
  from addTriggers_order [OF assms(1)] assms(2)
  have ts: "triggers_for ?w (ev_key ev) = pre @ t # post"
    by (simp add: triggers_for_setState)
  have st: "wf_state ?w = Some s"
    by (simp add: setState_def)
  from ts have ne: "triggers_for ?w (ev_key ev) \<noteq> []"
    by simp
  show ?thesis
    unfolding Workflow_handleEvent_loop [OF st ne] ts for_triggers_first_match [OF assms(3,4)]
    by (simp add: select_calls_def try_invoke_def split: sum.splits)
qed

text \<open>
  Three triggers on one event: the first is skipped in the state \<^verbatim>\<open>rfq_uploaded\<close>,
  the second and the third both pass. The second is invoked, the third is not
  called at all.
\<close>

theorem first_match_wins_witness:
  "\<exists>r w'. Workflow_handleEvent
      (setState
        (workflowWith
          [(''rfq_uploaded_event'', notifyRoleSelectionAction, whenProcessing),
           (''rfq_uploaded_event'', processRfqAction, whenUploaded),
           (''rfq_uploaded_event'', archiveAction, whenUploaded)])
        uploadedState)
      uploadedEvent None =
    (Inr r, w',
     [ConditionCall ''notify_role_selection'',
      ConditionCall ''process_rfq'', CanBeInvokedCall ''process_rfq'', InvokeCall ''process_rfq''])
    \<and> action_key r = Some ''process_rfq''"
proof -
  let ?regs = "[(''rfq_uploaded_event'', notifyRoleSelectionAction, whenProcessing),
                (''rfq_uploaded_event'', processRfqAction, whenUploaded),
                (''rfq_uploaded_event'', archiveAction, whenUploaded)]"
  have built: "addTriggers emptyWorkflow ?regs = Inr (workflowWith ?regs)"
    by (simp add: example_defs model_defs)
  have order: "triggers_for emptyWorkflow (ev_key uploadedEvent) @ registered_for (ev_key uploadedEvent) ?regs =
      [\<lparr>action = notifyRoleSelectionAction, condition = whenProcessing\<rparr>] @
      \<lparr>action = processRfqAction, condition = whenUploaded\<rparr> #
      [\<lparr>action = archiveAction, condition = whenUploaded\<rparr>]"
    by (simp add: registered_for_def triggers_for_def Map_get_def emptyWorkflow_def uploadedEvent_def)
  have skipped: "\<forall>p \<in> set [\<lparr>action = notifyRoleSelectionAction, condition = whenProcessing\<rparr>].
      trigger_skipped p uploadedState uploadedEvent"
    by (simp add: trigger_skipped_def whenProcessing_def uploadedState_def)
  have passes: "trigger_passes \<lparr>action = processRfqAction, condition = whenUploaded\<rparr> uploadedState uploadedEvent"
    by (simp add: trigger_passes_def whenUploaded_def uploadedState_def canBeInvoked_def
        processRfqAction_def Action_new_def)
  have calls: "concat (map (skip_calls uploadedState uploadedEvent)
        [\<lparr>action = notifyRoleSelectionAction, condition = whenProcessing\<rparr>]) =
      [ConditionCall ''notify_role_selection'']"
    by (simp add: skip_calls_def whenProcessing_def uploadedState_def
        notifyRoleSelectionAction_def Action_new_def)
  have key: "act_key (action \<lparr>action = processRfqAction, condition = whenUploaded\<rparr>) = ''process_rfq''"
    by (simp add: processRfqAction_def Action_new_def)
  have inv: "\<exists>result. invoke (action \<lparr>action = processRfqAction, condition = whenUploaded\<rparr>)
        uploadedState None = Inr result \<and> action_key result = Some ''process_rfq''"
    by (simp add: invoke_def processRfqAction_def Action_new_def)
  from first_match_wins [OF built order skipped passes, of None] inv
  show ?thesis
    unfolding calls key by auto
qed

text \<open>
  C2 as stated fails where a check of an earlier trigger throws. The condition of
  the first trigger reads the payload of an event that has none; the second
  trigger is the first whose condition and guard are true. The call ends with the
  TypeError after one call to the first condition, and invokes nothing.
\<close>

theorem first_passing_trigger_counterexample:
  "\<not> trigger_passes \<lparr>action = processRfqAction, condition = whenApproved\<rparr> uploadedState approvedEvent
   \<and> trigger_passes \<lparr>action = archiveAction, condition = whenUploaded\<rparr> uploadedState approvedEvent
   \<and> fst (Workflow_handleEvent
            (setState
              (workflowWith
                [(''rfq_approved_event'', processRfqAction, whenApproved),
                 (''rfq_approved_event'', archiveAction, whenUploaded)])
              uploadedState)
            approvedEvent None)
       = Inl (Thrown (Some ''Cannot read properties of undefined''))
   \<and> snd (snd (Workflow_handleEvent
            (setState
              (workflowWith
                [(''rfq_approved_event'', processRfqAction, whenApproved),
                 (''rfq_approved_event'', archiveAction, whenUploaded)])
              uploadedState)
            approvedEvent None))
       = [ConditionCall ''process_rfq'']"
  by (simp add: example_defs model_defs)

text \<open>
  C6, as the code has it. When the action of the selected trigger throws,
  \<^verbatim>\<open>handleEvent\<close> returns a failed result: \<^verbatim>\<open>success\<close> is false, \<^verbatim>\<open>cost\<close> is 0, \<^verbatim>\<open>data\<close> is
  empty, and the message is \<^verbatim>\<open>err?.message ?? "Action execution failed"\<close>: the message
  of the thrown value when it has one, and the text \<^verbatim>\<open>"Action execution failed"\<close> when
  it has none (a thrown string, \<^verbatim>\<open>null\<close>, an object without a message). The workflow, its current state included, is what it was before the
  call. The run holds one invocation: the action is not attempted again and no
  other action is.
\<close>

theorem thrown_action_is_contained:
  assumes "wf_state w = Some s"
    and "triggers_for w (ev_key ev) = pre @ t # post"
    and "\<forall>p \<in> set pre. trigger_skipped p s ev"
    and "trigger_passes t s ev"
    and "invoke (action t) s m = Inl err"
  shows "Workflow_handleEvent w ev m =
           (Inr \<lparr>action_key = None, cost = 0, res_success = False,
                 res_message = Some (case exn_message err of
                                       Some msg \<Rightarrow> msg
                                     | None \<Rightarrow> ''Action execution failed''),
                 res_data = Some [], new_state = None, res_emitEvent = None\<rparr>,
            w,
            concat (map (skip_calls s ev) pre) @
              [ConditionCall (act_key (action t)), CanBeInvokedCall (act_key (action t)),
               InvokeCall (act_key (action t))])
         \<and> filter is_invoke (snd (snd (Workflow_handleEvent w ev m))) = [InvokeCall (act_key (action t))]"
proof -
  from assms(2) have ne: "triggers_for w (ev_key ev) \<noteq> []"
    by simp
  have run: "Workflow_handleEvent w ev m =
      (Inr (try_invoke t s m),
       w\<lparr>wf_state := (if res_success (try_invoke t s m) then new_state (try_invoke t s m) else Some s)\<rparr>,
       concat (map (skip_calls s ev) pre) @ select_calls t)"
    unfolding Workflow_handleEvent_loop [OF assms(1) ne] assms(2)
      for_triggers_first_match [OF assms(3,4)]
    by simp
  from assms(5) have caught: "try_invoke t s m =
      failed (case exn_message err of Some msg \<Rightarrow> msg | None \<Rightarrow> ''Action execution failed'')"
    by (simp add: try_invoke_def)
  show ?thesis
    unfolding run caught
    by (simp add: failed_def select_calls_def skip_calls_no_invoke is_invoke_def
        Workflow_same_state [OF assms(1)])
qed

text \<open>
  The action of the first trigger throws \<^verbatim>\<open>new Error("RFQ parser crashed")\<close>; the
  second trigger would pass as well and is not tried.
\<close>

theorem thrown_action_is_contained_witness:
  "Workflow_handleEvent
      (setState
        (workflowWith
          [(''rfq_uploaded_event'', crashingAction, whenUploaded),
           (''rfq_uploaded_event'', archiveAction, whenUploaded)])
        uploadedState)
      uploadedEvent None =
    (Inr \<lparr>action_key = None, cost = 0, res_success = False,
          res_message = Some ''RFQ parser crashed'',
          res_data = Some [], new_state = None, res_emitEvent = None\<rparr>,
     setState
       (workflowWith
         [(''rfq_uploaded_event'', crashingAction, whenUploaded),
          (''rfq_uploaded_event'', archiveAction, whenUploaded)])
       uploadedState,
     [ConditionCall ''parse_rfq'', CanBeInvokedCall ''parse_rfq'', InvokeCall ''parse_rfq''])"
proof -
  let ?regs = "[(''rfq_uploaded_event'', crashingAction, whenUploaded),
                (''rfq_uploaded_event'', archiveAction, whenUploaded)]"
  let ?w = "setState (workflowWith ?regs) uploadedState"
  have built: "addTriggers emptyWorkflow ?regs = Inr (workflowWith ?regs)"
    by (simp add: example_defs model_defs)
  have st: "wf_state ?w = Some uploadedState"
    by (simp add: setState_def)
  have order: "triggers_for ?w (ev_key uploadedEvent) =
      [] @ \<lparr>action = crashingAction, condition = whenUploaded\<rparr> #
      [\<lparr>action = archiveAction, condition = whenUploaded\<rparr>]"
    by (simp add: workflowWith_triggers [OF built] registered_for_def uploadedEvent_def)
  have skipped: "\<forall>p \<in> set []. trigger_skipped p uploadedState uploadedEvent"
    by simp
  have passes: "trigger_passes \<lparr>action = crashingAction, condition = whenUploaded\<rparr> uploadedState uploadedEvent"
    by (simp add: trigger_passes_def whenUploaded_def uploadedState_def canBeInvoked_def
        crashingAction_def plainAction_def Action_new_def)
  have throws: "invoke (action \<lparr>action = crashingAction, condition = whenUploaded\<rparr>) uploadedState None =
      Inl (Thrown (Some ''RFQ parser crashed''))"
    by (simp add: invoke_def crashingAction_def plainAction_def Action_new_def)
  have key: "act_key (action \<lparr>action = crashingAction, condition = whenUploaded\<rparr>) = ''parse_rfq''"
    by (simp add: crashingAction_def plainAction_def Action_new_def)
  from thrown_action_is_contained [OF st order skipped passes throws]
  show ?thesis
    unfolding key by simp
qed

text \<open>
  C6 as stated fails where the thrown value has no message. The action of this
  workflow throws a string. The exception carries no message, and the result's
  message is not absent with it: it is the text \<^verbatim>\<open>"Action execution failed"\<close>.
\<close>

theorem thrown_message_counterexample:
  "map_sum exn_message id (invoke rejectingAction uploadedState None) = Inl None
   \<and> map_sum id res_message
       (fst (Workflow_handleEvent
               (setState (workflowWith [(''rfq_uploaded_event'', rejectingAction, whenUploaded)])
                  uploadedState)
               uploadedEvent None))
     = Inr (Some ''Action execution failed'')"
  by (simp add: example_defs model_defs)



section \<open>Claims about Orchestrator.handleEvent\<close>

lemma Orchestrator_handleEvent_no_task:
  assumes "getTask orch taskId = None"
  shows "Orchestrator_handleEvent orch taskId ev now =
    (Inr \<lparr>timestamp = now, task_id = taskId, log_success = False,
          log_message = Some (''Task '' @ quoted taskId @ '' not found''),
          event = ev, action_log_data = None\<rparr>, orch)"
  using assms by (simp add: Orchestrator_handleEvent_def)

lemma Orchestrator_handleEvent_no_workflow:
  assumes "getTask orch taskId = Some task" and "getWorkflow orch (workflowKey task) = None"
  shows "Orchestrator_handleEvent orch taskId ev now =
    (Inr \<lparr>timestamp = now, task_id = tk_id task, log_success = False,
          log_message = Some (''Workflow '' @ quoted (workflowKey task) @ '' not found for task''),
          event = ev, action_log_data = None\<rparr>, orch)"
  using assms by (simp add: Orchestrator_handleEvent_def)

lemma Orchestrator_handleEvent_threw:
  assumes "getTask orch taskId = Some task" and "getWorkflow orch (workflowKey task) = Some workflow"
    and "Workflow_handleEvent (setState workflow (tk_state task)) ev (messenger orch) = (Inl err, w', calls)"
  shows "Orchestrator_handleEvent orch taskId ev now =
    (Inl err,
     orch\<lparr>workflows := update_first (\<lambda>w. wf_key w = workflowKey task) (\<lambda>_. w') (workflows orch)\<rparr>)"
  using assms by (simp add: Orchestrator_handleEvent_def)

lemma Orchestrator_handleEvent_returned:
  assumes "getTask orch taskId = Some task" and "getWorkflow orch (workflowKey task) = Some workflow"
    and "Workflow_handleEvent (setState workflow (tk_state task)) ev (messenger orch) = (Inr result, w', calls)"
  shows "Orchestrator_handleEvent orch taskId ev now =
    (Inr \<lparr>timestamp = now, task_id = tk_id task, log_success = truthy (action_key result),
          log_message = None, event = ev, action_log_data = Some result\<rparr>,
     orch\<lparr>workflows := update_first (\<lambda>w. wf_key w = workflowKey task) (\<lambda>_. w') (workflows orch),
          tasks := update_first (\<lambda>t. tk_id t = taskId)
                     (\<lambda>t. t\<lparr>tk_state :=
                        (if res_success result
                         then (case new_state result of Some s \<Rightarrow> s | None \<Rightarrow> tk_state t)
                         else tk_state t)\<rparr>)
                     (tasks orch),
          logs := logs orch @
            [\<lparr>timestamp = now, task_id = tk_id task, log_success = truthy (action_key result),
              log_message = None, event = ev, action_log_data = Some result\<rparr>]\<rparr>)"
  using assms by (simp add: Orchestrator_handleEvent_def Let_def)

text \<open>The four ways a call ends.\<close>

lemma Orchestrator_handleEvent_cases:
  obtains
    (no_task) "getTask orch taskId = None"
  | (no_workflow) task where "getTask orch taskId = Some task" "getWorkflow orch (workflowKey task) = None"
  | (threw) task workflow err w' calls where
      "getTask orch taskId = Some task" "getWorkflow orch (workflowKey task) = Some workflow"
      "Workflow_handleEvent (setState workflow (tk_state task)) ev (messenger orch) = (Inl err, w', calls)"
  | (returned) task workflow result w' calls where
      "getTask orch taskId = Some task" "getWorkflow orch (workflowKey task) = Some workflow"
      "Workflow_handleEvent (setState workflow (tk_state task)) ev (messenger orch) = (Inr result, w', calls)"
proof (cases "getTask orch taskId")
  case None
  then show ?thesis by (rule no_task)
next
  case (Some task)
  show ?thesis
  proof (cases "getWorkflow orch (workflowKey task)")
    case None
    with Some show ?thesis by (rule no_workflow)
  next
    case wfl: (Some workflow)
    obtain out w' calls where
      run: "Workflow_handleEvent (setState workflow (tk_state task)) ev (messenger orch) = (out, w', calls)"
      by (cases "Workflow_handleEvent (setState workflow (tk_state task)) ev (messenger orch)") auto
    show ?thesis
    proof (cases out)
      case (Inl err)
      with Some wfl run show ?thesis by (auto intro: threw)
    next
      case (Inr result)
      with Some wfl run show ?thesis by (auto intro: returned)
    qed
  qed
qed

lemma getTask_after_update:
  "getTask (orch\<lparr>workflows := ws, tasks := update_first (\<lambda>t. tk_id t = taskId) (\<lambda>t. t\<lparr>tk_state := g t\<rparr>) (tasks orch),
                 logs := ls\<rparr>) taskId =
   map_option (\<lambda>t. t\<lparr>tk_state := g t\<rparr>) (getTask orch taskId)"
  by (simp add: getTask_def find_update_first_same)

lemma getTask_other_after_update:
  "other \<noteq> taskId \<Longrightarrow>
   getTask (orch\<lparr>workflows := ws, tasks := update_first (\<lambda>t. tk_id t = taskId) (\<lambda>t. t\<lparr>tk_state := g t\<rparr>) (tasks orch),
                 logs := ls\<rparr>) other =
   getTask orch other"
  by (simp add: getTask_def) (rule find_update_first_other; simp)

text \<open>
  C1, as the code has it. A call changes the committed state of no task but the one
  it is for, and of that one only when the workflow returned a result whose
  \<^verbatim>\<open>success\<close> is true and which carries a \<^verbatim>\<open>new_state\<close>: that value is then the committed
  state. A result with \<^verbatim>\<open>success\<close> true and no \<^verbatim>\<open>new_state\<close> leaves the committed state
  as it was. So does every failure: a failed lookup, a failed result of the workflow
  (the one made from an exception an action threw included), and a call that ends
  with an exception.
\<close>

theorem committed_state_changes_only_on_success:
  assumes "Orchestrator_handleEvent orch taskId ev now = (out, orch')"
    and "getTask orch taskId = Some task"
  shows "\<exists>task'. getTask orch' taskId = Some task'
           \<and> tk_state task' =
               (case out of
                  Inl err \<Rightarrow> tk_state task
                | Inr l \<Rightarrow>
                    (case action_log_data l of
                       None \<Rightarrow> tk_state task
                     | Some result \<Rightarrow>
                         if res_success result
                         then (case new_state result of Some s \<Rightarrow> s | None \<Rightarrow> tk_state task)
                         else tk_state task))
           \<and> (tk_state task' \<noteq> tk_state task \<longrightarrow>
                (\<exists>l result. out = Inr l \<and> action_log_data l = Some result \<and> res_success result
                   \<and> new_state result = Some (tk_state task')))
           \<and> (\<forall>other. other \<noteq> taskId \<longrightarrow> getTask orch' other = getTask orch other)"
proof (cases rule: Orchestrator_handleEvent_cases [where orch = orch and taskId = taskId and ev = ev])
  case no_task
  with assms show ?thesis by simp
next
  case (no_workflow t)
  with assms show ?thesis
    by (auto simp: Orchestrator_handleEvent_no_workflow)
next
  case (threw t workflow err w' calls)
  with assms show ?thesis
    by (auto simp: Orchestrator_handleEvent_threw getTask_def)
next
  case (returned t workflow result w' calls)
  from assms(1) have out: "out = Inr \<lparr>timestamp = now, task_id = tk_id t, log_success = truthy (action_key result),
          log_message = None, event = ev, action_log_data = Some result\<rparr>"
    and orch': "orch' = orch\<lparr>workflows := update_first (\<lambda>w. wf_key w = workflowKey t) (\<lambda>_. w') (workflows orch),
          tasks := update_first (\<lambda>t. tk_id t = taskId)
                     (\<lambda>t. t\<lparr>tk_state :=
                        (if res_success result
                         then (case new_state result of Some s \<Rightarrow> s | None \<Rightarrow> tk_state t)
                         else tk_state t)\<rparr>)
                     (tasks orch),
          logs := logs orch @
            [\<lparr>timestamp = now, task_id = tk_id t, log_success = truthy (action_key result),
              log_message = None, event = ev, action_log_data = Some result\<rparr>]\<rparr>"
    unfolding Orchestrator_handleEvent_returned [OF returned] by simp_all
  from returned(1) assms(2) have t: "t = task" by simp
  show ?thesis
    unfolding orch' out getTask_after_update
    using assms(2) t
    by (auto simp: getTask_other_after_update split: option.splits)
qed

text \<open>
  The task of the procurement example and its first event: the action succeeds and
  returns the state \<^verbatim>\<open>processing\<close>, which becomes the committed state.
\<close>

theorem committed_state_changes_only_on_success_witness:
  "\<exists>task'. getTask (snd (Orchestrator_handleEvent procurementOrchestrator ''task-1'' uploadedEvent ''2024-01-02''))
        ''task-1'' = Some task'
     \<and> tk_state task' = uploadedState\<lparr>st_key := ''processing''\<rparr>"
proof -
  let ?H = "Orchestrator_handleEvent procurementOrchestrator ''task-1'' uploadedEvent ''2024-01-02''"
  have run: "?H = (fst ?H, snd ?H)"
    by simp
  have task: "getTask procurementOrchestrator ''task-1'' =
      Some \<lparr>tk_id = ''task-1'', workflowKey = ''rfq_procurement'', tk_state = uploadedState,
            createdAt = ''2024-01-01''\<rparr>"
    by (simp add: example_defs model_defs)
  have out: "map_option new_state (workflow_result ?H) = Some (Some (uploadedState\<lparr>st_key := ''processing''\<rparr>))
      \<and> map_option res_success (workflow_result ?H) = Some True"
    by (simp add: example_defs model_defs)
  from committed_state_changes_only_on_success [OF run task] out
  show ?thesis
    by (auto simp: workflow_result_def split: sum.splits option.splits if_splits)
qed

text \<open>
  C1 as stated fails: the action of this workflow returns \<^verbatim>\<open>success: true\<close> and no
  \<^verbatim>\<open>new_state\<close>. The result the workflow returns has \<^verbatim>\<open>success = true\<close>, and the committed
  state of the task is what it was.
\<close>

theorem commit_iff_success_counterexample:
  "map_option res_success
     (workflow_result (Orchestrator_handleEvent acknowledgingOrchestrator ''task-1'' uploadedEvent ''2024-01-02''))
     = Some True
   \<and> map_option tk_state
       (getTask (snd (Orchestrator_handleEvent acknowledgingOrchestrator ''task-1'' uploadedEvent ''2024-01-02''))
          ''task-1'')
     = map_option tk_state (getTask acknowledgingOrchestrator ''task-1'')
   \<and> map_option tk_state (getTask acknowledgingOrchestrator ''task-1'') = Some uploadedState"
  by (simp add: example_defs model_defs)

text \<open>
  C3, as the code has it. A call whose task and workflow lookups succeed and which
  returns appends one entry to the log sequence, whatever the workflow's result
  is, and returns that entry. A call for an unknown task id, or for a task whose
  workflow is not registered, returns a failed entry and appends nothing: the two
  early \<^verbatim>\<open>return\<close>s come before \<^verbatim>\<open>this.logs.push\<close>. A call that ends with an exception
  appends nothing either. No call removes or changes an entry.
\<close>

theorem log_appended_on_main_path_only:
  assumes "Orchestrator_handleEvent orch taskId ev now = (out, orch')"
  shows "(case getTask orch taskId of
            None \<Rightarrow> logs orch' = logs orch \<and> (\<exists>l. out = Inr l \<and> \<not> log_success l \<and> task_id l = taskId)
          | Some task \<Rightarrow>
              (case getWorkflow orch (workflowKey task) of
                 None \<Rightarrow> logs orch' = logs orch \<and> (\<exists>l. out = Inr l \<and> \<not> log_success l \<and> task_id l = tk_id task)
               | Some workflow \<Rightarrow>
                   (case out of
                      Inr l \<Rightarrow> logs orch' = logs orch @ [l]
                    | Inl err \<Rightarrow> logs orch' = logs orch)))"
proof (cases rule: Orchestrator_handleEvent_cases [where orch = orch and taskId = taskId and ev = ev])
  case no_task
  with assms show ?thesis
    by (auto simp: Orchestrator_handleEvent_no_task)
next
  case (no_workflow task)
  with assms show ?thesis
    by (auto simp: Orchestrator_handleEvent_no_workflow)
next
  case (threw task workflow err w' calls)
  with assms show ?thesis
    by (auto simp: Orchestrator_handleEvent_threw)
next
  case (returned task workflow result w' calls)
  with assms show ?thesis
    by (auto simp: Orchestrator_handleEvent_returned)
qed

text \<open>The first event of the procurement example: the entry returned is the one entry of the log.\<close>

theorem log_appended_on_main_path_only_witness:
  "\<exists>l. fst (Orchestrator_handleEvent procurementOrchestrator ''task-1'' uploadedEvent ''2024-01-02'') = Inr l
     \<and> logs (snd (Orchestrator_handleEvent procurementOrchestrator ''task-1'' uploadedEvent ''2024-01-02'')) = [l]"
proof -
  let ?H = "Orchestrator_handleEvent procurementOrchestrator ''task-1'' uploadedEvent ''2024-01-02''"
  have run: "?H = (fst ?H, snd ?H)"
    by simp
  have task: "getTask procurementOrchestrator ''task-1'' =
      Some \<lparr>tk_id = ''task-1'', workflowKey = ''rfq_procurement'', tk_state = uploadedState,
            createdAt = ''2024-01-01''\<rparr>"
    by (simp add: example_defs model_defs)
  have workflow: "getWorkflow procurementOrchestrator ''rfq_procurement'' \<noteq> None"
    by (simp add: example_defs model_defs)
  have before: "logs procurementOrchestrator = []"
    by (simp add: example_defs model_defs)
  have returns: "\<exists>l. fst ?H = Inr l"
    by (simp add: example_defs model_defs)
  from log_appended_on_main_path_only [OF run] task workflow before returns
  show ?thesis
    by auto
qed

text \<open>
  C3 as stated fails: a call for a task id that no task has returns an entry, and
  the log sequence is as empty after the call as before it.
\<close>

theorem one_log_per_call_counterexample:
  "map_option task_id
     (returned_log (Orchestrator_handleEvent procurementOrchestrator ''nonexistent-id'' uploadedEvent ''2024-01-02''))
     = Some ''nonexistent-id''
   \<and> logs procurementOrchestrator = []
   \<and> logs (snd (Orchestrator_handleEvent procurementOrchestrator ''nonexistent-id'' uploadedEvent ''2024-01-02'')) = []"
  by (simp add: example_defs model_defs)

text \<open>
  C5, as the code has it. A call for an unknown task id returns a failed entry
  whose \<^verbatim>\<open>task_id\<close> is the id given, and changes nothing. Every call returns an entry,
  provided no condition and no guard of the triggers that the task's workflow has
  for the event throws on the task's state: the \<^verbatim>\<open>try\<close> of \<^verbatim>\<open>Workflow.handleEvent\<close>
  encloses the invocation of the action only, so what an action throws is turned
  into a result, and what a condition or a guard throws leaves both
  \<^verbatim>\<open>handleEvent\<close>s as an exception.
\<close>

theorem handleEvent_returns_unless_a_check_throws:
  assumes "\<And>task workflow.
      getTask orch taskId = Some task \<Longrightarrow> getWorkflow orch (workflowKey task) = Some workflow \<Longrightarrow>
      \<forall>p \<in> set (triggers_for workflow (ev_key ev)). \<not> trigger_throws p (tk_state task) ev"
  shows "\<exists>l orch'. Orchestrator_handleEvent orch taskId ev now = (Inr l, orch')
           \<and> (getTask orch taskId = None \<longrightarrow> orch' = orch \<and> \<not> log_success l \<and> task_id l = taskId)"
proof (cases rule: Orchestrator_handleEvent_cases [where orch = orch and taskId = taskId and ev = ev])
  case no_task
  then show ?thesis
    by (simp add: Orchestrator_handleEvent_no_task)
next
  case (no_workflow task)
  then show ?thesis
    by (simp add: Orchestrator_handleEvent_no_workflow)
next
  case (threw task workflow err w' calls)
  have "\<exists>r w'' calls'. Workflow_handleEvent (setState workflow (tk_state task)) ev (messenger orch) =
      (Inr r, w'', calls')"
  proof (rule Workflow_handleEvent_returns)
    fix s
    assume "wf_state (setState workflow (tk_state task)) = Some s"
    then have "s = tk_state task"
      by (simp add: setState_def)
    with assms [OF threw(1,2)]
    show "\<forall>p \<in> set (triggers_for (setState workflow (tk_state task)) (ev_key ev)). \<not> trigger_throws p s ev"
      by (simp add: triggers_for_setState)
  qed
  with threw(3) show ?thesis
    by simp
next
  case (returned task workflow result w' calls)
  then show ?thesis
    by (simp add: Orchestrator_handleEvent_returned)
qed

text \<open>
  The action of this workflow throws; its condition and guard return. The call
  returns an entry that holds the failed result.
\<close>

theorem handleEvent_returns_unless_a_check_throws_witness:
  "\<exists>l orch'. Orchestrator_handleEvent crashingOrchestrator ''task-1'' uploadedEvent ''2024-01-02'' = (Inr l, orch')
     \<and> map_option res_message (action_log_data l) = Some (Some ''RFQ parser crashed'')"
proof -
  have checks: "\<And>task workflow.
      getTask crashingOrchestrator ''task-1'' = Some task \<Longrightarrow>
      getWorkflow crashingOrchestrator (workflowKey task) = Some workflow \<Longrightarrow>
      \<forall>p \<in> set (triggers_for workflow (ev_key uploadedEvent)). \<not> trigger_throws p (tk_state task) uploadedEvent"
    by (auto simp: example_defs model_defs)
  have out: "map_option res_message
      (workflow_result (Orchestrator_handleEvent crashingOrchestrator ''task-1'' uploadedEvent ''2024-01-02''))
      = Some (Some ''RFQ parser crashed'')"
    by (simp add: example_defs model_defs)
  from handleEvent_returns_unless_a_check_throws [of crashingOrchestrator "''task-1''" uploadedEvent "''2024-01-02''",
      OF checks] out
  show ?thesis
    by (auto simp: workflow_result_def)
qed

text \<open>
  C5 as stated fails: the condition of this trigger reads a property of the
  event's payload, the event has no payload, and the call ends with the TypeError.
\<close>

theorem handleEvent_never_throws_counterexample:
  "fst (Orchestrator_handleEvent approvalOrchestrator ''task-1'' approvedEvent ''2024-01-02'')
     = Inl (Thrown (Some ''Cannot read properties of undefined''))"
  by (simp add: example_defs model_defs)

text \<open>
  C7, as the code has it. When both lookups succeed and the call returns, the
  entry returned is the entry appended, it holds the workflow's result, and its
  \<^verbatim>\<open>success\<close> flag is \<^verbatim>\<open>!!result.action_key\<close>: true when the result has an action key that
  is not the empty string, false when it has none or the empty one. The result's
  own \<^verbatim>\<open>success\<close> flag has no part in it.
\<close>

theorem log_success_is_truthy_action_key:
  assumes "Orchestrator_handleEvent orch taskId ev now = (Inr l, orch')"
    and "getTask orch taskId = Some task"
    and "getWorkflow orch (workflowKey task) = Some workflow"
  shows "\<exists>result. action_log_data l = Some result
           \<and> log_success l = (\<exists>k. action_key result = Some k \<and> k \<noteq> [])
           \<and> logs orch' = logs orch @ [l]"
proof (cases rule: Orchestrator_handleEvent_cases [where orch = orch and taskId = taskId and ev = ev])
  case no_task
  with assms show ?thesis by simp
next
  case (no_workflow t)
  with assms show ?thesis by simp
next
  case (threw t w err w' calls)
  with assms show ?thesis
    by (simp add: Orchestrator_handleEvent_threw)
next
  case (returned t w result w' calls)
  with assms show ?thesis
    by (auto simp: Orchestrator_handleEvent_returned truthy_def split: option.splits)
qed

text \<open>The action throws: the result has no action key, and the entry's flag is false.\<close>

theorem log_success_is_truthy_action_key_witness:
  "\<exists>l. fst (Orchestrator_handleEvent crashingOrchestrator ''task-1'' uploadedEvent ''2024-01-02'') = Inr l
     \<and> \<not> log_success l
     \<and> logs (snd (Orchestrator_handleEvent crashingOrchestrator ''task-1'' uploadedEvent ''2024-01-02'')) = [l]"
proof -
  let ?H = "Orchestrator_handleEvent crashingOrchestrator ''task-1'' uploadedEvent ''2024-01-02''"
  obtain l where l: "fst ?H = Inr l" and key: "map_option action_key (action_log_data l) = Some None"
    by (simp add: example_defs model_defs)
  from l have run: "?H = (Inr l, snd ?H)"
    by (metis prod.collapse)
  have task: "getTask crashingOrchestrator ''task-1'' =
      Some \<lparr>tk_id = ''task-1'', workflowKey = ''rfq_procurement'', tk_state = uploadedState,
            createdAt = ''2024-01-01''\<rparr>"
    by (simp add: example_defs model_defs)
  obtain workflow where workflow: "getWorkflow crashingOrchestrator
      (workflowKey \<lparr>tk_id = ''task-1'', workflowKey = ''rfq_procurement'', tk_state = uploadedState,
            createdAt = ''2024-01-01''\<rparr>) = Some workflow"
    by (simp add: example_defs model_defs)
  have before: "logs crashingOrchestrator = []"
    by (simp add: example_defs model_defs)
  from log_success_is_truthy_action_key [OF run task workflow] key before l
  show ?thesis
    by auto
qed

text \<open>
  C7 as stated fails: the result of this action has an action key, the empty
  string, and the flag of the entry is false.
\<close>

theorem log_success_action_key_present_counterexample:
  "map_option action_key
     (workflow_result (Orchestrator_handleEvent unnamedOrchestrator ''task-1'' uploadedEvent ''2024-01-02''))
     = Some (Some [])
   \<and> map_option log_success
       (returned_log (Orchestrator_handleEvent unnamedOrchestrator ''task-1'' uploadedEvent ''2024-01-02''))
     = Some False"
  by (simp add: example_defs model_defs)

text \<open>
  C10. Let a call return an entry whose result has \<^verbatim>\<open>success = true\<close> and no
  \<^verbatim>\<open>new_state\<close>; such a result is the result of an invoked action, every result the
  core makes itself being a failure. Then the committed state of the task is what
  it was (\<^verbatim>\<open>result.new_state ?? task.state\<close>), while the workflow object has no
  current state any more (\<^verbatim>\<open>this.state = result.new_state\<close>): a further
  \<^verbatim>\<open>handleEvent\<close> on it, for any event and without a \<^verbatim>\<open>setState\<close> before, calls nothing
  and returns the \<^verbatim>\<open>"Invalid state"\<close> failure.
\<close>

theorem success_without_new_state:
  assumes "Orchestrator_handleEvent orch taskId ev now = (Inr l, orch')"
    and "action_log_data l = Some result"
    and "res_success result"
    and "new_state result = None"
  shows "\<exists>task task' workflow'.
           getTask orch taskId = Some task \<and> getTask orch' taskId = Some task'
           \<and> tk_state task' = tk_state task
           \<and> getWorkflow orch' (workflowKey task) = Some workflow'
           \<and> wf_state workflow' = None
           \<and> (\<forall>ev' m'. Workflow_handleEvent workflow' ev' m' = (Inr (failed ''Invalid state''), workflow', []))"
proof (cases rule: Orchestrator_handleEvent_cases [where orch = orch and taskId = taskId and ev = ev])
  case no_task
  with assms show ?thesis
    by (auto simp: Orchestrator_handleEvent_no_task)
next
  case (no_workflow task)
  with assms show ?thesis
    by (auto simp: Orchestrator_handleEvent_no_workflow)
next
  case (threw task workflow err w' calls)
  with assms show ?thesis
    by (simp add: Orchestrator_handleEvent_threw)
next
  case (returned task workflow r w' calls)
  from assms(1,2) have r: "r = result"
    unfolding Orchestrator_handleEvent_returned [OF returned] by auto
  from assms(1) have orch': "orch' = orch\<lparr>workflows := update_first (\<lambda>w. wf_key w = workflowKey task) (\<lambda>_. w') (workflows orch),
          tasks := update_first (\<lambda>t. tk_id t = taskId)
                     (\<lambda>t. t\<lparr>tk_state :=
                        (if res_success r
                         then (case new_state r of Some s \<Rightarrow> s | None \<Rightarrow> tk_state t)
                         else tk_state t)\<rparr>)
                     (tasks orch),
          logs := logs orch @
            [\<lparr>timestamp = now, task_id = tk_id task, log_success = truthy (action_key r),
              log_message = None, event = ev, action_log_data = Some r\<rparr>]\<rparr>"
    unfolding Orchestrator_handleEvent_returned [OF returned] by auto
  from Workflow_handleEvent_success [OF returned(3)] assms(3,4) r
  have gone: "wf_state w' = None"
    by simp
  from Workflow_handleEvent_key [OF returned(3)]
  have key: "wf_key w' = wf_key workflow"
    by (simp add: setState_def)
  from returned(2) have "wf_key workflow = workflowKey task"
    by (auto simp: getWorkflow_def dest: find_Some_iff [THEN iffD1])
  with key have key': "wf_key w' = workflowKey task"
    by simp
  have found: "getWorkflow orch' (workflowKey task) = Some w'"
    unfolding orch' using returned(2) key'
    by (simp add: getWorkflow_def find_update_first_same)
  have kept: "\<exists>task'. getTask orch' taskId = Some task' \<and> tk_state task' = tk_state task"
    unfolding orch' getTask_after_update using returned(1) assms(3,4) r
    by simp
  from returned(1) kept found gone show ?thesis
    by (auto simp: Workflow_handleEvent_no_state)
qed

text \<open>
  The action of this workflow acknowledges the upload and returns no new state.
  After the call the task is in the state it was in and the workflow object has none.
\<close>

theorem success_without_new_state_witness:
  "\<exists>task' workflow'.
     getTask (snd (Orchestrator_handleEvent acknowledgingOrchestrator ''task-1'' uploadedEvent ''2024-01-02''))
       ''task-1'' = Some task'
     \<and> tk_state task' = uploadedState
     \<and> getWorkflow (snd (Orchestrator_handleEvent acknowledgingOrchestrator ''task-1'' uploadedEvent ''2024-01-02''))
         ''rfq_procurement'' = Some workflow'
     \<and> fst (Workflow_handleEvent workflow' uploadedEvent None) = Inr (failed ''Invalid state'')"
proof -
  let ?H = "Orchestrator_handleEvent acknowledgingOrchestrator ''task-1'' uploadedEvent ''2024-01-02''"
  obtain l result where l: "fst ?H = Inr l" and result: "action_log_data l = Some result"
    and success: "res_success result" and none: "new_state result = None"
    by (simp add: example_defs model_defs)
  from l have run: "?H = (Inr l, snd ?H)"
    by (metis prod.collapse)
  have task: "getTask acknowledgingOrchestrator ''task-1'' =
      Some \<lparr>tk_id = ''task-1'', workflowKey = ''rfq_procurement'', tk_state = uploadedState,
            createdAt = ''2024-01-01''\<rparr>"
    by (simp add: example_defs model_defs)
  from success_without_new_state [OF run result success none] task
  show ?thesis
    by auto
qed

section \<open>Claims about initTask and addTrigger\<close>

text \<open>
  C8, as the code has it. \<^verbatim>\<open>initTask\<close> throws \<^verbatim>\<open>WorkflowNotFound\<close> and changes nothing when
  no registered workflow has the key. Otherwise it returns a task with the id and
  the creation time of this call, in the state whose key is the workflow's
  \<^verbatim>\<open>initialStateKey\<close>, and appends that task to the task list. The data of the state
  is the \<^verbatim>\<open>initialData\<close> of this call when one is given. When it is omitted, the data
  is the initial state data the workflow object holds: empty for a workflow that
  was never given any, and otherwise what \<^verbatim>\<open>setInitialStateData\<close> stored last, which
  an earlier \<^verbatim>\<open>initTask\<close> with data does. The call stores the data it used in the
  workflow object.
\<close>

theorem initTask_state:
  "(getWorkflow orch k = None \<longrightarrow>
      initTask orch k initialData uuid now = (Inl (WorkflowNotFound k), orch))
   \<and> (\<forall>workflow. getWorkflow orch k = Some workflow \<longrightarrow>
        (\<exists>task orch' workflow'.
           initTask orch k initialData uuid now = (Inr task, orch')
           \<and> task = \<lparr>tk_id = uuid, workflowKey = wf_key workflow,
                      tk_state = \<lparr>st_key = initialStateKey workflow,
                                  st_data = (case initialData of
                                               Some d \<Rightarrow> d
                                             | None \<Rightarrow> initialStateData workflow)\<rparr>,
                      createdAt = now\<rparr>
           \<and> tasks orch' = tasks orch @ [task]
           \<and> logs orch' = logs orch
           \<and> getWorkflow orch' k = Some workflow'
           \<and> initialStateData workflow' = st_data (tk_state task)
           \<and> wf_state workflow' = Some (tk_state task)))"
proof (intro conjI allI impI)
  assume "getWorkflow orch k = None"
  then show "initTask orch k initialData uuid now = (Inl (WorkflowNotFound k), orch)"
    by (simp add: initTask_def)
next
  fix workflow
  assume found: "getWorkflow orch k = Some workflow"
  then have key: "wf_key workflow = k"
    by (auto simp: getWorkflow_def dest: find_Some_iff [THEN iffD1])
  let ?wf1 = "case initialData of Some d \<Rightarrow> setInitialStateData workflow d | None \<Rightarrow> workflow"
  have again: "getWorkflow
      (orch\<lparr>workflows := update_first (\<lambda>w. wf_key w = k) (\<lambda>_. initState ?wf1) (workflows orch),
            tasks := ts\<rparr>) k = Some (initState ?wf1)" for ts
    using found key
    by (simp add: getWorkflow_def find_update_first_same initState_def setInitialStateData_def
        split: option.splits)
  show "\<exists>task orch' workflow'.
           initTask orch k initialData uuid now = (Inr task, orch')
           \<and> task = \<lparr>tk_id = uuid, workflowKey = wf_key workflow,
                      tk_state = \<lparr>st_key = initialStateKey workflow,
                                  st_data = (case initialData of
                                               Some d \<Rightarrow> d
                                             | None \<Rightarrow> initialStateData workflow)\<rparr>,
                      createdAt = now\<rparr>
           \<and> tasks orch' = tasks orch @ [task]
           \<and> logs orch' = logs orch
           \<and> getWorkflow orch' k = Some workflow'
           \<and> initialStateData workflow' = st_data (tk_state task)
           \<and> wf_state workflow' = Some (tk_state task)"
    using found again
    by (simp add: initTask_def Let_def getState_initState)
      (simp add: initState_def setInitialStateData_def split: option.splits)
qed

text \<open>
  The call of the repository's example, on an orchestrator that holds the
  procurement workflow and no task, and a call for a key no workflow has.
\<close>

theorem initTask_state_witness:
  "fst (initTask (Orchestrator_new [rfqProcurementWorkflow] None) ''rfq_procurement''
          (Some [(''fileUrl'', JsString ''https://example.com/rfq.pdf'')]) ''task-1'' ''2024-01-01'')
     = Inr \<lparr>tk_id = ''task-1'', workflowKey = ''rfq_procurement'', tk_state = uploadedState,
            createdAt = ''2024-01-01''\<rparr>
   \<and> fst (initTask (Orchestrator_new [rfqProcurementWorkflow] None) ''onboarding'' None ''task-1'' ''2024-01-01'')
     = Inl (WorkflowNotFound ''onboarding'')"
proof -
  let ?orch = "Orchestrator_new [rfqProcurementWorkflow] None"
  have found: "getWorkflow ?orch ''rfq_procurement'' = Some rfqProcurementWorkflow"
    by (simp add: example_defs model_defs)
  have fields: "wf_key rfqProcurementWorkflow = ''rfq_procurement''"
    "initialStateKey rfqProcurementWorkflow = ''rfq_uploaded''"
    by (simp_all add: example_defs model_defs)
  have absent: "getWorkflow ?orch ''onboarding'' = None"
    by (simp add: example_defs model_defs)
  from initTask_state [of ?orch "''rfq_procurement''"
      "Some [(''fileUrl'', JsString ''https://example.com/rfq.pdf'')]" "''task-1''" "''2024-01-01''"]
    initTask_state [of ?orch "''onboarding''" None "''task-1''" "''2024-01-01''"]
    found absent fields
  show ?thesis
    by (auto simp: uploadedState_def)
qed

text \<open>
  C8 as stated fails where \<^verbatim>\<open>initialData\<close> is omitted. Two calls that are given the
  same arguments but for the id and the time, none of them data: on an orchestrator
  that has created no task the state's data is empty, and after
  \<^verbatim>\<open>initTask("rfq_procurement", { fileUrl: ... })\<close> it is the data of that earlier task.
\<close>

theorem initTask_omitted_data_counterexample:
  "map_sum id (\<lambda>t. st_data (tk_state t))
     (fst (initTask (Orchestrator_new [rfqProcurementWorkflow] None) ''rfq_procurement'' None
             ''task-2'' ''2024-01-03''))
     = Inr []
   \<and> map_sum id (\<lambda>t. st_data (tk_state t))
       (fst (initTask procurementOrchestrator ''rfq_procurement'' None ''task-2'' ''2024-01-03''))
     = Inr [(''fileUrl'', JsString ''https://example.com/rfq.pdf'')]"
  by (simp add: example_defs model_defs)

text \<open>
  C4. \<^verbatim>\<open>addTrigger\<close> calls \<^verbatim>\<open>registerAction\<close> first and without a test, so it throws
  \<^verbatim>\<open>ActionKeyConflict\<close> whenever the action's key is registered already, whatever the
  event key is, and changes nothing then.
\<close>

lemma addTrigger_registered_action:
  assumes "Map_has (actions w) (act_key a)"
  shows "addTrigger w eventKey a cond = (Inl (ActionKeyConflict (act_key a) (wf_key w)), w)"
  using assms by (simp add: addTrigger_def registerAction_def)

lemma Map_has_Map_set: "Map_has (Map_set m k v) k' = (k' = k \<or> Map_has m k')"
  by (auto simp: Map_has_def map_of_Map_set)

lemma set_Map_set: "set (Map_set m k v) \<subseteq> insert (k, v) (set m)"
  by (induction m) (auto split: if_splits)

lemma Map_has_member: "Map_has m k \<Longrightarrow> \<exists>v. (k, v) \<in> set m"
  by (auto simp: Map_has_def dest: map_of_SomeD)

lemma Map_get_member: "Map_get m k = Some v \<Longrightarrow> (k, v) \<in> set m"
  by (auto simp: Map_get_def dest: map_of_SomeD)

lemma triggers_registered_member:
  assumes "triggers_registered w" and "(ek, ts) \<in> set (conditions w)" and "(k, t) \<in> set ts"
  shows "Map_has (actions w) k"
  using assms unfolding triggers_registered_def by fastforce

lemma triggers_registered_lookup:
  assumes "triggers_registered w" and "Map_get (conditions w) ek = Some ts" and "(k, t) \<in> set ts"
  shows "Map_has (actions w) k"
  using assms by (auto simp: triggers_registered_def dest!: Map_get_member)

text \<open>
  The workflows a caller can build keep every trigger's key in the action
  registry: the constructor's workflow does, and \<^verbatim>\<open>registerAction\<close> and \<^verbatim>\<open>addTrigger\<close>
  preserve it, whether they return or throw.
\<close>

lemma triggers_registered_new:
  assumes "Workflow_new k initialKey as = Inr w"
  shows "triggers_registered w"
proof -
  have "registerActions w0 as = Inr w \<Longrightarrow> conditions w0 = [] \<Longrightarrow> conditions w = []" for w0
    by (induction as arbitrary: w0) (auto simp: registerAction_def split: if_splits)
  with assms show ?thesis
    by (simp add: Workflow_new_def triggers_registered_def)
qed

lemma triggers_registered_registerAction:
  assumes "triggers_registered w"
  shows "triggers_registered (snd (registerAction w a))"
  using assms
  by (auto simp: triggers_registered_def registerAction_def Map_has_Map_set)

lemma triggers_registered_addTrigger:
  assumes "triggers_registered w"
  shows "triggers_registered (snd (addTrigger w eventKey a cond))"
proof (cases "Map_has (actions w) (act_key a)")
  case True
  with assms show ?thesis
    by (simp add: addTrigger_registered_action)
next
  case False
  define ts where "ts = (case Map_get (conditions w) eventKey of Some ts \<Rightarrow> ts | None \<Rightarrow> [])"
  define ts' where "ts' = Map_set ts (act_key a) \<lparr>action = a, condition = cond\<rparr>"
  define as' where "as' = Map_set (actions w) (act_key a) a"
  have grows: "Map_has (actions w) k \<Longrightarrow> Map_has as' k" for k
    by (simp add: as'_def Map_has_Map_set)
  have old: "Map_has (actions w) k" if "(k, t) \<in> set ts" for k t
    using that unfolding ts_def
    by (cases "Map_get (conditions w) eventKey")
      (auto dest: triggers_registered_lookup [OF assms])
  have new: "Map_has as' k" if "(k, t) \<in> set ts'" for k t
  proof -
    from that set_Map_set [of ts "act_key a" "\<lparr>action = a, condition = cond\<rparr>"]
    have "k = act_key a \<or> (k, t) \<in> set ts"
      unfolding ts'_def by auto
    then show ?thesis
      using old grows by (auto simp: as'_def Map_has_Map_set)
  qed
  have rest: "Map_has as' k" if "(ek, us) \<in> set (conditions w)" and "(k, t) \<in> set us" for ek us k t
    using triggers_registered_member [OF assms that] by (rule grows)
  have unbound: "\<not> Map_has ts (act_key a)"
    using old False by (auto dest: Map_has_member)
  have result: "snd (addTrigger w eventKey a cond) =
      w\<lparr>actions := as', conditions := Map_set (conditions w) eventKey ts'\<rparr>"
    using False unbound
    by (simp add: addTrigger_def registerAction_def Let_def ts_def [symmetric] ts'_def as'_def)
  show ?thesis
    unfolding result triggers_registered_def
  proof (clarsimp)
    fix ek us k t
    assume "(ek, us) \<in> set (Map_set (conditions w) eventKey ts')" and in_us: "(k, t) \<in> set us"
    with set_Map_set [of "conditions w" eventKey ts']
    have "us = ts' \<or> (ek, us) \<in> set (conditions w)"
      by auto
    with in_us show "Map_has as' k"
      using new rest by auto
  qed
qed

text \<open>
  On such a workflow the second test of \<^verbatim>\<open>addTrigger\<close> never fires: when the pair
  \<open>(eventKey, action.key)\<close> is bound already, the key is registered and
  \<^verbatim>\<open>registerAction\<close> has thrown before the test is reached.
\<close>

lemma addTrigger_never_TriggerConflict:
  assumes "triggers_registered w"
  shows "fst (addTrigger w eventKey a cond) \<noteq> Inl (TriggerConflict k e wk)"
proof (cases "Map_has (actions w) (act_key a)")
  case True
  then show ?thesis
    by (simp add: addTrigger_registered_action)
next
  case False
  let ?ts = "case Map_get (conditions w) eventKey of Some ts \<Rightarrow> ts | None \<Rightarrow> []"
  have "\<not> Map_has ?ts (act_key a)"
  proof
    assume "Map_has ?ts (act_key a)"
    then obtain t where "(act_key a, t) \<in> set ?ts"
      by (auto dest: Map_has_member)
    then have "Map_has (actions w) (act_key a)"
      by (cases "Map_get (conditions w) eventKey")
        (auto dest: triggers_registered_lookup [OF assms])
    with False show False
      by simp
  qed
  with False show ?thesis
    by (simp add: addTrigger_def registerAction_def Let_def)
qed

text \<open>
  The failing input of C4: a workflow without triggers, \<^verbatim>\<open>processRfqAction\<close> bound to
  one event, then bound to a second, different event. The first call returns; the
  second throws \<^verbatim>\<open>ActionKeyConflict\<close>, where the claim says it does not fail.
\<close>

theorem addTrigger_second_event_throws:
  "fst (addTrigger emptyWorkflow ''rfq_uploaded_event'' processRfqAction whenUploaded) = Inr ()
   \<and> fst (addTrigger
            (snd (addTrigger emptyWorkflow ''rfq_uploaded_event'' processRfqAction whenUploaded))
            ''rfq_resubmitted_event'' processRfqAction whenUploaded)
     = Inl (ActionKeyConflict ''process_rfq'' ''rfq_procurement'')"
  by (simp add: example_defs model_defs)

end
